theory Spec2Isabelle
  imports Complex_Main "HOL-Library.Log_Nat"
begin

section \<open>The Pi lamp API: one relay pin behind four HTTP routes\<close>

text \<open>
  The program is \<^verbatim>\<open>raspberrypi/app.py\<close>: a module-level relay on GPIO17 and four
  GET handlers. The handlers are modelled as state-passing functions over the
  relay; every operation the code performs on the outside world (a pin write, a
  true division that was evaluated, a completed sleep) is appended to a log, so
  that statements about which operations happen, how often and in which order are
  statements about that log. Requests are handled one at a time: the interleaving
  of concurrent requests is not part of the model.
\<close>

subsection \<open>The relay, the log of operations and the platform\<close>

datatype event =
    PinOn
  | PinOff
  | Divide int int
  | Sleep rat

datatype error = ZeroDivisionError | OverflowError | ValueError | OSError

text \<open>
  The world the code acts on: the level of the pin, the log, and what the platform
  does with a call of \<^verbatim>\<open>time.sleep\<close> that the interpreter does not refuse by
  itself. The largest length that \<^verbatim>\<open>time.sleep\<close> accepts is not fixed by the
  language: it depends on the interpreter version, on the operating system and on
  the clock at the moment of the call (CPython 3.11 on Linux raises OSError or
  OverflowError for lengths of about \<open>2 ^ 63\<close> nanoseconds and more, and where
  the limit lies moves with the uptime of the machine). \<open>sleep_fault\<close> gives, for
  the log so far and a length in seconds, the exception the platform raises, or
  \<open>None\<close> when it sleeps. The code never changes it.
\<close>

record world =
  pin :: bool
  trace :: "event list"
  sleep_fault :: "event list \<Rightarrow> rat \<Rightarrow> error option"

text \<open>
  \<^verbatim>\<open>relay = LED(17)\<close> on a given platform: the pin starts low and nothing has
  happened yet.
\<close>

definition relay :: "(event list \<Rightarrow> rat \<Rightarrow> error option) \<Rightarrow> world" where
  "relay platform = \<lparr>pin = False, trace = [], sleep_fault = platform\<rparr>"

type_synonym task = "world \<Rightarrow> error option \<times> world"

text \<open>\<^verbatim>\<open>relay.on()\<close> and \<^verbatim>\<open>relay.off()\<close>; hardware faults are not modelled.\<close>

definition relay_on :: task where
  "relay_on w = (None, w\<lparr>pin := True, trace := trace w @ [PinOn]\<rparr>)"

definition relay_off :: task where
  "relay_off w = (None, w\<lparr>pin := False, trace := trace w @ [PinOff]\<rparr>)"

subsection \<open>The primitives of Python that the flash loop uses\<close>

text \<open>
  A Python float is an IEEE 754 binary64 number. A finite one is modelled by the
  rational number it denotes; the two zeros of the format are the one number 0
  here, which this program cannot tell apart (\<^verbatim>\<open>time.sleep\<close> accepts both).

  \<open>pow2 k\<close> is \<open>2\<close> to the integer power \<open>k\<close>; \<open>round_half_even\<close> rounds to the
  nearest integer, a tie to the even one; \<open>binade a b\<close> is the exponent \<open>e\<close> with
  \<open>2 ^ e \<le> |a / b| < 2 ^ (e + 1)\<close>, found from the bit lengths of \<open>a\<close> and \<open>b\<close>.
\<close>

definition pow2 :: "int \<Rightarrow> rat" where
  "pow2 k = (if 0 \<le> k then 2 ^ nat k else 1 / 2 ^ nat (- k))"

definition round_half_even :: "rat \<Rightarrow> int" where
  "round_half_even q =
     (let n = \<lfloor>q\<rfloor>; r = q - of_int n
      in if r < 1 / 2 then n
         else if 1 / 2 < r then n + 1
         else if even n then n else n + 1)"

definition binade :: "int \<Rightarrow> int \<Rightarrow> int" where
  "binade a b =
     (let k = bitlen (abs a) - bitlen (abs b)
      in if pow2 k \<le> abs (of_int a / of_int b) then k else k - 1)"

text \<open>
  The binary64 number nearest to \<open>a / b\<close> for \<open>b \<noteq> 0\<close>, ties to the even
  significand: the quotient is rounded to a multiple of the spacing of the doubles
  around it, which is \<open>2 ^ (e - 52)\<close> in the binade \<open>e\<close> and \<open>2 ^ - 1074\<close> below
  \<open>2 ^ - 1022\<close>. The exponent is not bounded above here; \<open>truediv\<close> tests for that.
\<close>

definition to_double :: "int \<Rightarrow> int \<Rightarrow> rat" where
  "to_double a b =
     (if a = 0 then 0
      else let ulp = pow2 (max (binade a b) (- 1022) - 52)
           in of_int (round_half_even (of_int a / of_int b / ulp)) * ulp)"

text \<open>
  \<^verbatim>\<open>a / b\<close> on two Python integers: ZeroDivisionError for a zero divisor,
  OverflowError when the correctly rounded quotient is too large for a double
  (it reaches \<open>2 ^ 1024\<close>), and otherwise the double nearest to the quotient.
\<close>

definition truediv :: "int \<Rightarrow> int \<Rightarrow> error + rat" where
  "truediv a b =
     (if b = 0 then Inl ZeroDivisionError
      else if 2 ^ 1024 \<le> abs (to_double a b) then Inl OverflowError
      else Inr (to_double a b))"

text \<open>
  \<^verbatim>\<open>time.sleep(secs)\<close> on a double. The interpreter converts the length to a
  signed 64-bit count of nanoseconds and refuses a negative count with ValueError
  (\<^verbatim>\<open>sleep length must be non-negative\<close>); this is the case of every negative
  length of less than \<open>2 ^ 63\<close> nanoseconds. Every other length is accepted or
  refused as the platform decides (\<open>sleep_fault\<close>: a negative length too large for
  the count, a length beyond what the platform can sleep). A call that returns has
  suspended the caller for the length; a call that raises has not.
\<close>

definition sleep :: "rat \<Rightarrow> task" where
  "sleep secs w =
     (if secs < 0 \<and> - (2 ^ 63) < secs * 10 ^ 9 then (Some ValueError, w)
      else case sleep_fault w (trace w) secs of
             Some e \<Rightarrow> (Some e, w)
           | None \<Rightarrow> (None, w\<lparr>trace := trace w @ [Sleep secs]\<rparr>))"

text \<open>Statement sequencing: an exception ends the block with the world as it is.\<close>

definition seq :: "task \<Rightarrow> task \<Rightarrow> task" where
  "seq f g w = (case f w of (Some e, w') \<Rightarrow> (Some e, w') | (None, w') \<Rightarrow> g w')"

text \<open>
  \<^verbatim>\<open>for _ in range(...): block\<close>, by the number of elements of the range.
\<close>

fun for_range :: "nat \<Rightarrow> task \<Rightarrow> task" where
  "for_range 0 block w = (None, w)"
| "for_range (Suc n) block w =
     (case block w of (Some e, w') \<Rightarrow> (Some e, w') | (None, w') \<Rightarrow> for_range n block w')"

text \<open>\<^verbatim>\<open>len(range(n))\<close>: a range over a non-positive count is empty.\<close>

definition range_len :: "int \<Rightarrow> nat" where
  "range_len n = (if n \<le> 0 then 0 else nat n)"

subsection \<open>The flash loop\<close>

text \<open>
  \<^verbatim>\<open>sleep(duration / (flashes * 2))\<close>: the argument is evaluated, then the call is
  made.
\<close>

definition sleep_interval :: "int \<Rightarrow> int \<Rightarrow> task" where
  "sleep_interval duration flashes w =
     (case truediv duration (flashes * 2) of
        Inl e \<Rightarrow> (Some e, w)
      | Inr secs \<Rightarrow> sleep secs (w\<lparr>trace := trace w @ [Divide duration (flashes * 2)]\<rparr>))"

text \<open>
  The closure \<^verbatim>\<open>_flash\<close> of \<^verbatim>\<open>lamp_flash\<close>, with the variables it captures as
  arguments:
  \<^verbatim>\<open>
    for _ in range(flashes):
        relay.on()
        sleep(duration / (flashes * 2))
        relay.off()
        sleep(duration / (flashes * 2))
  \<close>
\<close>

definition flash_body :: "int \<Rightarrow> int \<Rightarrow> task" where
  "flash_body duration flashes =
     seq relay_on
       (seq (sleep_interval duration flashes)
          (seq relay_off
             (sleep_interval duration flashes)))"

definition flash :: "int \<Rightarrow> int \<Rightarrow> task" where
  "flash duration flashes = for_range (range_len flashes) (flash_body duration flashes)"

subsection \<open>The handlers\<close>

datatype jvalue = JStr string | JInt int | JBool bool

type_synonym json = "(string \<times> jvalue) list"

definition lamp_on :: "world \<Rightarrow> json \<times> world" where
  "lamp_on w = ([(''status'', JStr ''on'')], snd (relay_on w))"

definition lamp_off :: "world \<Rightarrow> json \<times> world" where
  "lamp_off w = ([(''status'', JStr ''off'')], snd (relay_off w))"

text \<open>
  \<^verbatim>\<open>lamp_flash(duration, flashes, bg)\<close> adds the closure to the request's background
  tasks and returns; it does not touch the relay.
\<close>

definition lamp_flash :: "int \<Rightarrow> int \<Rightarrow> task list \<Rightarrow> world \<Rightarrow> json \<times> task list \<times> world" where
  "lamp_flash duration flashes bg w =
     ([(''status'', JStr ''flashing''), (''duration'', JInt duration), (''flashes'', JInt flashes)],
      bg @ [flash duration flashes],
      w)"

definition health :: json where
  "health = [(''ok'', JBool True)]"

subsection \<open>Routing\<close>

text \<open>
  The four routes the decorators register, with the query parameters of
  \<^verbatim>\<open>/lamp/flash\<close> as the framework hands them over after parsing (absent
  parameters take the defaults of the signature, 5 and 5). A handler's dictionary
  is sent as a JSON response with status 200, the framework's default; each request
  gets a fresh, empty collection of background tasks.
\<close>

datatype request =
    GET_lamp_on
  | GET_lamp_off
  | GET_lamp_flash "int option" "int option"
  | GET_health

record response =
  status_code :: nat
  body :: json

definition json_response :: "json \<Rightarrow> response" where
  "json_response b = \<lparr>status_code = 200, body = b\<rparr>"

definition is_client_error :: "response \<Rightarrow> bool" where
  "is_client_error r \<longleftrightarrow> 400 \<le> status_code r \<and> status_code r < 500"

fun app :: "request \<Rightarrow> world \<Rightarrow> response \<times> task list \<times> world" where
  "app GET_lamp_on w = (case lamp_on w of (b, w') \<Rightarrow> (json_response b, [], w'))"
| "app GET_lamp_off w = (case lamp_off w of (b, w') \<Rightarrow> (json_response b, [], w'))"
| "app (GET_lamp_flash duration flashes) w =
     (case lamp_flash (case duration of None \<Rightarrow> 5 | Some d \<Rightarrow> d)
                      (case flashes of None \<Rightarrow> 5 | Some f \<Rightarrow> f) [] w of
        (b, bg, w') \<Rightarrow> (json_response b, bg, w'))"
| "app GET_health w = (json_response health, [], w)"

text \<open>
  After the response has been produced the framework runs the request's
  background tasks in the order they were added; an exception in one ends the run.
\<close>

fun run_background :: "task list \<Rightarrow> task" where
  "run_background [] w = (None, w)"
| "run_background (t # ts) w =
     (case t w of (Some e, w') \<Rightarrow> (Some e, w') | (None, w') \<Rightarrow> run_background ts w')"


subsection \<open>Vocabulary for the log\<close>

text \<open>
  The double that the source's expression \<^verbatim>\<open>duration / (flashes * 2)\<close> evaluates
  to when it does not fault, the log of one completed pass through the loop block,
  and the pin writes of a log.
\<close>

definition interval :: "int \<Rightarrow> int \<Rightarrow> rat" where
  "interval duration flashes = to_double duration (flashes * 2)"

definition cycle :: "int \<Rightarrow> int \<Rightarrow> event list" where
  "cycle duration flashes =
     [PinOn, Divide duration (flashes * 2), Sleep (interval duration flashes),
      PinOff, Divide duration (flashes * 2), Sleep (interval duration flashes)]"

definition pin_writes :: "event list \<Rightarrow> event list" where
  "pin_writes es = filter (\<lambda>e. e = PinOn \<or> e = PinOff) es"

text \<open>
  An example of a platform, for the concrete runs below: it sleeps for a minute at
  most and refuses every longer length.
\<close>

definition sleeps_a_minute :: "event list \<Rightarrow> rat \<Rightarrow> error option" where
  "sleeps_a_minute es secs = (if secs \<le> 60 then None else Some OSError)"

section \<open>Properties of the primitives\<close>

text \<open>The rounding on some quotients, against the doubles Python prints for them.\<close>

lemma to_double_examples:
  "to_double 4 4 = 1"
  "to_double 5 10 = 1 / 2"
  "to_double (- 1) 2 = - 1 / 2"
  "to_double 1 6 = 6004799503160661 / 2 ^ 55"
  "to_double 1 5 = 7205759403792794 / 2 ^ 55"
  "to_double 9007199254740993 1 = 9007199254740992"
  by code_simp+

lemma pow2_pos: "0 < pow2 k"
  by (simp add: pow2_def)

lemma pow2_powi: "pow2 k = 2 powi k"
  by (simp add: pow2_def power_int_def inverse_eq_divide power_one_over [symmetric] del: power_one_over)

lemma pow2_add: "pow2 (i + j) = pow2 i * pow2 j"
  by (simp add: pow2_powi power_int_add)

lemma pow2_nat: "pow2 (int n) = 2 ^ n"
  by (simp add: pow2_def)

lemma pow2_mono: "i \<le> j \<Longrightarrow> pow2 i \<le> pow2 j"
  by (simp add: pow2_powi power_int_increasing)

lemma round_half_even_near: "\<bar>of_int (round_half_even q) - q\<bar> \<le> 1 / 2"
proof -
  have "of_int \<lfloor>q\<rfloor> \<le> q" and "q < of_int \<lfloor>q\<rfloor> + 1"
    by linarith+
  then show ?thesis
    by (auto simp: round_half_even_def Let_def abs_le_iff not_less)
qed

lemma bitlen_pow2_bounds:
  assumes "0 < x"
  shows "pow2 (bitlen x - 1) \<le> of_int x" and "of_int x < pow2 (bitlen x)"
proof -
  have len: "1 \<le> bitlen x"
    using assms by (auto simp: bitlen_alt_def)
  have "(of_int (2 ^ nat (bitlen x - 1)) :: rat) \<le> of_int x"
    using bitlen_bounds [OF assms] by (simp only: of_int_le_iff)
  then show "pow2 (bitlen x - 1) \<le> of_int x"
    using len by (simp add: pow2_def)
  have "(of_int x :: rat) < of_int (2 ^ nat (bitlen x))"
    using bitlen_bounds [OF assms] by (simp only: of_int_less_iff)
  then show "of_int x < pow2 (bitlen x)"
    using len by (simp add: pow2_def)
qed

text \<open>\<open>binade a b\<close> is the binary exponent of the quotient.\<close>

lemma binade_bounds:
  assumes "a \<noteq> 0" and "b \<noteq> 0"
  shows "pow2 (binade a b) \<le> \<bar>of_int a / of_int b\<bar>"
    and "\<bar>of_int a / of_int b\<bar> < pow2 (binade a b + 1)"
proof -
  let ?la = "bitlen \<bar>a\<bar>" and ?lb = "bitlen \<bar>b\<bar>"
  let ?q = "\<bar>of_int a / of_int b :: rat\<bar>"
  have a: "0 < \<bar>a\<bar>" and b: "0 < \<bar>b\<bar>"
    using assms by simp_all
  have a_lo: "pow2 (?la - 1) \<le> of_int \<bar>a\<bar>" and a_hi: "of_int \<bar>a\<bar> < pow2 ?la"
    using bitlen_pow2_bounds [OF a] by blast+
  have b_lo: "pow2 (?lb - 1) \<le> of_int \<bar>b\<bar>" and b_hi: "of_int \<bar>b\<bar> < pow2 ?lb"
    using bitlen_pow2_bounds [OF b] by blast+
  have q: "?q = of_int \<bar>a\<bar> / of_int \<bar>b\<bar>"
    by simp
  have bpos: "(0::rat) < of_int \<bar>b\<bar>"
    using b by simp
  have upper: "?q < pow2 (?la - ?lb + 1)"
  proof -
    have "of_int \<bar>a\<bar> < pow2 (?la - ?lb + 1) * pow2 (?lb - 1)"
      using a_hi by (simp flip: pow2_add)
    also have "\<dots> \<le> pow2 (?la - ?lb + 1) * of_int \<bar>b\<bar>"
      using b_lo pow2_pos [of "?la - ?lb + 1"] by (intro mult_left_mono) simp_all
    finally show ?thesis
      unfolding q using bpos by (simp add: pos_divide_less_eq)
  qed
  have lower: "pow2 (?la - ?lb - 1) \<le> ?q"
  proof -
    have "pow2 (?la - ?lb - 1) * of_int \<bar>b\<bar> \<le> pow2 (?la - ?lb - 1) * pow2 ?lb"
      using b_hi pow2_pos [of "?la - ?lb - 1"] by (intro mult_left_mono) simp_all
    also have "\<dots> = pow2 (?la - 1)"
      by (simp flip: pow2_add)
    also have "\<dots> \<le> of_int \<bar>a\<bar>"
      by (rule a_lo)
    finally show ?thesis
      unfolding q using bpos by (simp add: pos_le_divide_eq)
  qed
  show "pow2 (binade a b) \<le> ?q"
    using lower by (simp add: binade_def Let_def)
  show "?q < pow2 (binade a b + 1)"
    using upper by (auto simp: binade_def Let_def not_le)
qed

text \<open>
  \<open>to_double a b\<close> lies within half the spacing of the doubles around the
  quotient, and it is a multiple of that spacing with a significand of at most
  \<open>2 ^ 53\<close>: it is a double nearest to \<open>a / b\<close>. Between two nearest ones
  \<open>round_half_even\<close> takes the even significand.
\<close>

lemma to_double_nearest:
  "\<bar>to_double a b - of_int a / of_int b\<bar> \<le> pow2 (max (binade a b) (- 1022) - 52) / 2"
proof (cases "a = 0")
  case True
  then show ?thesis
    using pow2_pos [of "max (binade a b) (- 1022) - 52"] by (simp add: to_double_def)
next
  case False
  let ?ulp = "pow2 (max (binade a b) (- 1022) - 52)"
  let ?q = "of_int a / of_int b :: rat"
  have pos: "0 < ?ulp"
    by (rule pow2_pos)
  have "to_double a b - ?q = (of_int (round_half_even (?q / ?ulp)) - ?q / ?ulp) * ?ulp"
    using False pos by (simp add: to_double_def Let_def algebra_simps)
  then have "\<bar>to_double a b - ?q\<bar> = \<bar>of_int (round_half_even (?q / ?ulp)) - ?q / ?ulp\<bar> * ?ulp"
    using pos by (simp add: abs_mult)
  also have "\<dots> \<le> 1 / 2 * ?ulp"
    using round_half_even_near [of "?q / ?ulp"] pos by (intro mult_right_mono) simp_all
  finally show ?thesis by simp
qed


lemma round_half_even_bound:
  assumes "\<bar>q\<bar> \<le> of_int n"
  shows "\<bar>round_half_even q\<bar> \<le> n"
proof -
  have up: "q \<le> of_int n" and low: "- of_int n \<le> q"
    using assms by (simp_all add: abs_le_iff minus_le_iff)
  have near: "\<bar>of_int (round_half_even q) - q\<bar> \<le> 1 / 2"
    by (rule round_half_even_near)
  have "(of_int (round_half_even q) :: rat) < of_int n + 1"
    using near up by linarith
  then have "round_half_even q < n + 1"
    by (simp flip: of_int_less_iff [where 'a = rat])
  moreover have "- (of_int n :: rat) - 1 < of_int (round_half_even q)"
    using near low by linarith
  then have "- n - 1 < round_half_even q"
    by (simp flip: of_int_less_iff [where 'a = rat])
  ultimately show ?thesis
    by simp
qed

lemma to_double_significand:
  assumes "b \<noteq> 0"
  shows "\<exists>m. \<bar>m\<bar> \<le> 2 ^ 53 \<and>
    to_double a b = of_int m * pow2 (max (binade a b) (- 1022) - 52)"
proof (cases "a = 0")
  case True
  then have "\<bar>0::int\<bar> \<le> 2 ^ 53 \<and>
      to_double a b = of_int 0 * pow2 (max (binade a b) (- 1022) - 52)"
    by (simp add: to_double_def)
  then show ?thesis by blast
next
  case False
  let ?e = "max (binade a b) (- 1022)"
  let ?ulp = "pow2 (?e - 52)"
  let ?q = "of_int a / of_int b :: rat"
  have pos: "0 < ?ulp"
    by (rule pow2_pos)
  have "\<bar>?q\<bar> < pow2 (binade a b + 1)"
    by (rule binade_bounds(2) [OF False assms])
  also have "\<dots> \<le> pow2 (?e + 1)"
    by (rule pow2_mono) simp
  also have "\<dots> = 2 ^ 53 * ?ulp"
    using pow2_add [of 53 "?e - 52"] pow2_nat [of 53] by (simp add: add.commute)
  finally have lt: "\<bar>?q\<bar> < 2 ^ 53 * ?ulp" .
  have "\<bar>?q / ?ulp\<bar> = \<bar>?q\<bar> / ?ulp"
    using pos by (simp only: abs_divide abs_of_pos)
  also have "\<dots> < 2 ^ 53"
    using lt by (simp only: pos_divide_less_eq [OF pos])
  also have "(2::rat) ^ 53 = of_int (2 ^ 53)"
    by simp
  finally have "\<bar>?q / ?ulp\<bar> \<le> of_int (2 ^ 53)"
    by (rule less_imp_le)
  from round_half_even_bound [OF this]
  have "\<bar>round_half_even (?q / ?ulp)\<bar> \<le> 2 ^ 53" .
  moreover have "to_double a b = of_int (round_half_even (?q / ?ulp)) * ?ulp"
    using False by (simp add: to_double_def Let_def)
  ultimately show ?thesis by blast
qed

lemma round_half_even_nonneg:
  assumes "0 \<le> q"
  shows "0 \<le> round_half_even q"
proof -
  have "0 \<le> \<lfloor>q\<rfloor>"
    using assms by simp
  then show ?thesis
    by (simp add: round_half_even_def Let_def)
qed

text \<open>Rounding keeps a non-negative quotient non-negative.\<close>

lemma to_double_nonneg:
  assumes "0 \<le> a" and "0 < b"
  shows "0 \<le> to_double a b"
proof -
  have "0 \<le> (of_int a :: rat) / of_int b / pow2 k" for k
    using assms pow2_pos [of k] by simp
  then have "0 \<le> round_half_even (of_int a / of_int b / pow2 k)" for k
    by (rule round_half_even_nonneg)
  then show ?thesis
    using pow2_pos by (simp add: to_double_def Let_def less_imp_le)
qed

lemma truediv_returns:
  assumes "truediv a b = Inr secs"
  shows "secs = to_double a b" and "b \<noteq> 0"
  using assms by (simp_all add: truediv_def split: if_splits)

lemma truediv_zero_only:
  assumes "truediv a b = Inl ZeroDivisionError"
  shows "b = 0"
  using assms by (simp add: truediv_def split: if_splits)

lemma sleep_accepted:
  assumes "0 \<le> secs" and "sleep_fault w (trace w) secs = None"
  shows "sleep secs w = (None, w\<lparr>trace := trace w @ [Sleep secs]\<rparr>)"
  using assms by (simp add: sleep_def)

lemma sleep_returns:
  assumes "sleep secs w = (None, w')"
  shows "w' = w\<lparr>trace := trace w @ [Sleep secs]\<rparr>"
  using assms by (auto simp: sleep_def split: if_splits option.splits)


section \<open>Properties of the flash loop\<close>

lemma sleep_interval_accepted:
  assumes "truediv duration (flashes * 2) = Inr secs" and "0 \<le> secs"
    and "\<forall>es. sleep_fault w es secs = None"
  shows "sleep_interval duration flashes w =
           (None, w\<lparr>trace := trace w @ [Divide duration (flashes * 2), Sleep secs]\<rparr>)"
  using assms by (simp add: sleep_interval_def sleep_accepted)

lemma sleep_interval_returns:
  assumes "sleep_interval duration flashes w = (None, w')"
  shows "w' = w\<lparr>trace := trace w @
              [Divide duration (flashes * 2), Sleep (interval duration flashes)]\<rparr>"
proof (cases "truediv duration (flashes * 2)")
  case (Inl e)
  with assms show ?thesis
    by (simp add: sleep_interval_def)
next
  case (Inr secs)
  then have secs: "secs = interval duration flashes"
    by (simp add: truediv_returns(1) interval_def)
  from assms Inr
  have "sleep secs (w\<lparr>trace := trace w @ [Divide duration (flashes * 2)]\<rparr>) = (None, w')"
    by (simp add: sleep_interval_def)
  from sleep_returns [OF this] secs show ?thesis
    by simp
qed

lemma flash_body_accepted:
  assumes "truediv duration (flashes * 2) = Inr secs" and "0 \<le> secs"
    and "\<forall>es. sleep_fault w es secs = None"
  shows "flash_body duration flashes w =
           (None, w\<lparr>pin := False,
                     trace := trace w @
                       [PinOn, Divide duration (flashes * 2), Sleep secs,
                        PinOff, Divide duration (flashes * 2), Sleep secs]\<rparr>)"
proof -
  have "sleep_interval duration flashes v =
      (None, v\<lparr>trace := trace v @ [Divide duration (flashes * 2), Sleep secs]\<rparr>)"
    if "sleep_fault v = sleep_fault w" for v
    using assms that by (intro sleep_interval_accepted) simp_all
  then show ?thesis
    by (simp add: flash_body_def seq_def relay_on_def relay_off_def)
qed

text \<open>A pass through the loop block that returns has logged one whole cycle.\<close>

lemma flash_body_returns:
  assumes "flash_body duration flashes w = (None, w')"
  shows "w' = w\<lparr>pin := False, trace := trace w @ cycle duration flashes\<rparr>"
proof -
  let ?w1 = "w\<lparr>pin := True, trace := trace w @ [PinOn]\<rparr>"
  obtain r2 w2 where s1: "sleep_interval duration flashes ?w1 = (r2, w2)"
    by (cases "sleep_interval duration flashes ?w1")
  with assms have r2: "r2 = None"
    by (cases r2) (simp_all add: flash_body_def seq_def relay_on_def)
  with s1 have "sleep_interval duration flashes ?w1 = (None, w2)"
    by simp
  from sleep_interval_returns [OF this]
  have w2: "w2 = ?w1\<lparr>trace := trace ?w1 @
      [Divide duration (flashes * 2), Sleep (interval duration flashes)]\<rparr>" .
  let ?w3 = "w2\<lparr>pin := False, trace := trace w2 @ [PinOff]\<rparr>"
  from assms s1 r2 have "sleep_interval duration flashes ?w3 = (None, w')"
    by (simp add: flash_body_def seq_def relay_on_def relay_off_def)
  from sleep_interval_returns [OF this] w2 show ?thesis
    by (simp add: cycle_def)
qed

lemma for_range_steps:
  assumes "\<And>v. sleep_fault v = p \<Longrightarrow> blk v = (None, v\<lparr>pin := False, trace := trace v @ es\<rparr>)"
    and "sleep_fault w = p"
  shows "for_range n blk w =
           (None, w\<lparr>pin := (if n = 0 then pin w else False),
                     trace := trace w @ concat (replicate n es)\<rparr>)"
  using assms(2)
proof (induction n arbitrary: w)
  case 0
  show ?case by simp
next
  case (Suc n)
  have "for_range (Suc n) blk w = for_range n blk (w\<lparr>pin := False, trace := trace w @ es\<rparr>)"
    by (simp add: assms(1) [OF Suc.prems])
  moreover have "sleep_fault (w\<lparr>pin := False, trace := trace w @ es\<rparr>) = p"
    using Suc.prems by simp
  ultimately show ?case
    by (simp add: Suc.IH)
qed

lemma for_range_returns:
  assumes "\<And>v v'. blk v = (None, v') \<Longrightarrow> v' = v\<lparr>pin := False, trace := trace v @ es\<rparr>"
    and "for_range n blk w = (None, w')"
  shows "w' = w\<lparr>pin := (if n = 0 then pin w else False),
                 trace := trace w @ concat (replicate n es)\<rparr>"
  using assms(2)
proof (induction n arbitrary: w)
  case 0
  then show ?case by simp
next
  case (Suc n)
  obtain r v where bv: "blk w = (r, v)"
    by (cases "blk w")
  show ?case
  proof (cases r)
    case None
    with bv have v: "v = w\<lparr>pin := False, trace := trace w @ es\<rparr>"
      using assms(1) by simp
    from Suc.prems bv None have "for_range n blk v = (None, w')"
      by simp
    from Suc.IH [OF this] show ?thesis
      by (simp add: v)
  next
    case (Some e)
    with Suc.prems bv show ?thesis
      by simp
  qed
qed

lemma flash_accepted:
  assumes "1 \<le> flashes" and "truediv duration (flashes * 2) = Inr secs" and "0 \<le> secs"
    and "\<forall>es. sleep_fault w es secs = None"
  shows "flash duration flashes w =
           (None, w\<lparr>pin := False,
                     trace := trace w @ concat (replicate (nat flashes)
                       [PinOn, Divide duration (flashes * 2), Sleep secs,
                        PinOff, Divide duration (flashes * 2), Sleep secs])\<rparr>)"
proof -
  have len: "range_len flashes = nat flashes" and pos: "nat flashes \<noteq> 0"
    using assms(1) by (simp_all add: range_len_def)
  have "flash_body duration flashes v =
      (None, v\<lparr>pin := False,
                trace := trace v @
                  [PinOn, Divide duration (flashes * 2), Sleep secs,
                   PinOff, Divide duration (flashes * 2), Sleep secs]\<rparr>)"
    if "sleep_fault v = sleep_fault w" for v
    using assms(2,3,4) that by (intro flash_body_accepted) simp_all
  from for_range_steps [of "sleep_fault w" "flash_body duration flashes", OF this refl]
  show ?thesis
    using pos by (simp add: flash_def len)
qed

lemma flash_returns:
  assumes "1 \<le> flashes" and "flash duration flashes w = (None, w')"
  shows "w' = w\<lparr>pin := False,
                 trace := trace w @ concat (replicate (nat flashes) (cycle duration flashes))\<rparr>"
proof -
  have "range_len flashes = nat flashes" and "nat flashes \<noteq> 0"
    using assms(1) by (simp_all add: range_len_def)
  then show ?thesis
    using for_range_returns [of "flash_body duration flashes" "cycle duration flashes"
        "nat flashes" w w'] flash_body_returns assms(2)
    by (simp add: flash_def)
qed

text \<open>
  The divisor \<^verbatim>\<open>flashes * 2\<close> is only evaluated inside the loop block, which runs
  only for a positive \<^verbatim>\<open>flashes\<close>: where the division would be one by zero, the
  loop does not run at all.
\<close>

lemma flash_no_zero_division:
  assumes "truediv duration (flashes * 2) = Inl ZeroDivisionError"
  shows "flash duration flashes w = (None, w)"
proof -
  from truediv_zero_only [OF assms] have "flashes = 0"
    by simp
  then show ?thesis
    by (simp add: flash_def range_len_def)
qed

lemma concat_replicate_snoc:
  "concat (replicate (Suc k) xs) = concat (replicate k xs) @ xs"
  by (induction k) simp_all

section \<open>The claims\<close>

subsection \<open>The flash request and its scheduled work\<close>




subsection \<open>Switching the lamp on and off\<close>

text \<open>
  C2: every request to \<^verbatim>\<open>/lamp/on\<close> issues one pin-on write, which leaves the pin
  high whatever it was before, and is answered with exactly \<^verbatim>\<open>{"status": "on"}\<close>.
\<close>

theorem lamp_on_sets_pin_high:
  "app GET_lamp_on w =
     (\<lparr>status_code = 200, body = [(''status'', JStr ''on'')]\<rparr>, [],
      w\<lparr>pin := True, trace := trace w @ [PinOn]\<rparr>)"
  by (simp add: lamp_on_def relay_on_def json_response_def)

text \<open>
  C3: every request to \<^verbatim>\<open>/lamp/off\<close> issues one pin-off write, which leaves the pin
  low whatever it was before, and is answered with exactly \<^verbatim>\<open>{"status": "off"}\<close>.
\<close>

theorem lamp_off_sets_pin_low:
  "app GET_lamp_off w =
     (\<lparr>status_code = 200, body = [(''status'', JStr ''off'')]\<rparr>, [],
      w\<lparr>pin := False, trace := trace w @ [PinOff]\<rparr>)"
  by (simp add: lamp_off_def relay_off_def json_response_def)

text \<open>
  C8: two requests to \<^verbatim>\<open>/lamp/on\<close> in succession, from any relay state: the pin is
  high after the first, it is in the same state after the second, and both
  responses are the same, with body \<^verbatim>\<open>{"status": "on"}\<close>.
\<close>

theorem lamp_on_twice:
  "(case app GET_lamp_on w of (r1, bg1, w1) \<Rightarrow>
      case app GET_lamp_on w1 of (r2, bg2, w2) \<Rightarrow>
        pin w1 = True \<and> pin w2 = pin w1 \<and> r2 = r1 \<and> body r1 = [(''status'', JStr ''on'')])"
  by (simp add: lamp_on_def relay_on_def json_response_def)

subsection \<open>The liveness check\<close>

text \<open>
  C7: every request to \<^verbatim>\<open>/health\<close> is answered with exactly \<^verbatim>\<open>{"ok": true}\<close>,
  whatever the state of the relay, and changes nothing: the relay and its log are
  as before and no background work is scheduled.
\<close>

theorem health_is_static:
  "app GET_health w = (\<lparr>status_code = 200, body = [(''ok'', JBool True)]\<rparr>, [], w)"
  by (simp add: health_def json_response_def)

subsection \<open>What the flash handler does itself\<close>

text \<open>
  C9: the handler of a flash request performs no pin write and no sleep: when it
  returns, the relay and its log are what they were before the request, and the
  single background task it has submitted is the flash loop for the request's
  parameters (5 and 5 where the query leaves them out).
\<close>

theorem flash_request_leaves_pin:
  "snd (snd (app (GET_lamp_flash duration flashes) w)) = w \<and>
   fst (snd (app (GET_lamp_flash duration flashes) w)) =
     [flash (case duration of None \<Rightarrow> 5 | Some d \<Rightarrow> d)
            (case flashes of None \<Rightarrow> 5 | Some f \<Rightarrow> f)] \<and>
   snd (lamp_flash d f bg w) = (bg @ [flash d f], w)"
  by (simp add: lamp_flash_def)

subsection \<open>A flash request with no positive number of flashes\<close>

text \<open>
  C6: for \<open>flashes \<le> 0\<close> the range of the loop is empty, so the scheduled work
  performs no iteration: it returns without a fault and the log is unchanged, that
  is, no pin write, no sleep and no division has taken place.
\<close>

theorem flash_nonpositive_does_nothing:
  assumes "flashes \<le> 0"
  shows "range_len flashes = 0 \<and> flash duration flashes w = (None, w)"
  using assms by (simp add: flash_def range_len_def)

text \<open>Witness for C6: \<^verbatim>\<open>flashes=-3\<close> at start-up.\<close>

theorem flash_nonpositive_does_nothing_witness:
  "(- 3::int) \<le> 0 \<and> range_len (- 3) = 0 \<and>
   flash 5 (- 3) (relay sleeps_a_minute) = (None, relay sleeps_a_minute) \<and>
   trace (relay sleeps_a_minute) = []"
  using flash_nonpositive_does_nothing [of "- 3" 5 "relay sleeps_a_minute"]
  by (simp add: relay_def)

text \<open>
  C4 as the spec states it fails: for \<^verbatim>\<open>flashes=0\<close> the scheduled work returns
  without any fault; in particular it raises no ZeroDivisionError.
\<close>

theorem flash_zero_division_counterexample:
  "run_background [flash 5 0] (relay sleeps_a_minute) = (None, relay sleeps_a_minute) \<and>
   fst (run_background [flash 5 0] (relay sleeps_a_minute)) \<noteq> Some ZeroDivisionError"
  by (simp add: flash_def range_len_def)

text \<open>
  C4 (amended): for a flash request with \<open>flashes = 0\<close>, evaluating the scheduled
  work raises no fault. The interval computation \<^verbatim>\<open>duration / (flashes * 2)\<close> stands
  inside the loop block, which an empty range never enters, so the division by
  zero is not evaluated; the work returns at once and the relay and its log are
  unchanged.
\<close>

theorem flash_zero_returns:
  "flash duration 0 w = (None, w)"
  by (simp add: flash_def range_len_def)

text \<open>
  C5 as the spec states it fails in its second half: the response to
  \<^verbatim>\<open>/lamp/flash?flashes=0\<close> is not a client error.
\<close>

theorem flash_zero_client_error_counterexample:
  "\<not> is_client_error (fst (app (GET_lamp_flash None (Some 0)) (relay sleeps_a_minute)))"
  by (simp add: lamp_flash_def json_response_def is_client_error_def)

text \<open>
  C5 (amended): a request to \<^verbatim>\<open>/lamp/flash\<close> with \<open>flashes = 0\<close> propagates no
  arithmetic fault and is not rejected: the handler performs no validation and
  answers with status 200 and the body
  \<^verbatim>\<open>{"status": "flashing", "duration": D, "flashes": 0}\<close>, which is not a client
  error, and the background work it has scheduled returns without a fault and
  leaves the relay and its log unchanged.
\<close>

theorem flash_zero_request_succeeds:
  "(case app (GET_lamp_flash duration (Some 0)) w of (r, bg, w') \<Rightarrow>
      r = \<lparr>status_code = 200,
           body = [(''status'', JStr ''flashing''),
                   (''duration'', JInt (case duration of None \<Rightarrow> 5 | Some d \<Rightarrow> d)),
                   (''flashes'', JInt 0)]\<rparr> \<and>
      \<not> is_client_error r \<and>
      run_background bg w' = (None, w))"
  by (simp add: lamp_flash_def json_response_def is_client_error_def flash_def range_len_def)

subsection \<open>The pin after a completed flash\<close>

text \<open>
  C10: for \<open>flashes \<ge> 1\<close>, whenever the scheduled work runs to completion (no
  division and no sleep faults), the pin is low afterwards and the last pin write
  in the log is a pin-off write, whatever the duration and whatever the state of
  the relay before.
\<close>

theorem flash_ends_low:
  assumes "1 \<le> flashes" and "flash duration flashes w = (None, w')"
  shows "pin w' = False \<and> pin_writes (trace w') \<noteq> [] \<and> last (pin_writes (trace w')) = PinOff"
proof -
  from assms(1) obtain k where k: "nat flashes = Suc k"
    by (cases "nat flashes") simp_all
  have w': "w' = w\<lparr>pin := False,
      trace := trace w @ concat (replicate (nat flashes) (cycle duration flashes))\<rparr>"
    by (rule flash_returns [OF assms])
  have "pin_writes (cycle duration flashes) = [PinOn, PinOff]"
    by (simp add: pin_writes_def cycle_def)
  then have "pin_writes (trace w') =
      pin_writes (trace w @ concat (replicate k (cycle duration flashes))) @ [PinOn, PinOff]"
    using w' k concat_replicate_snoc [of k "cycle duration flashes"]
    by (simp add: pin_writes_def)
  then show ?thesis
    using w' by simp
qed

text \<open>
  Witness for C10: the loop for \<^verbatim>\<open>duration=4, flashes=2\<close> started with the pin
  high, on a platform that sleeps for up to a minute.
\<close>

theorem flash_ends_low_witness:
  "(1::int) \<le> 2 \<and>
   flash 4 2 \<lparr>pin = True, trace = [PinOn], sleep_fault = sleeps_a_minute\<rparr> =
     (None, \<lparr>pin = False,
             trace = [PinOn,
                      PinOn, Divide 4 4, Sleep 1, PinOff, Divide 4 4, Sleep 1,
                      PinOn, Divide 4 4, Sleep 1, PinOff, Divide 4 4, Sleep 1],
             sleep_fault = sleeps_a_minute\<rparr>) \<and>
   last (pin_writes [PinOn,
                     PinOn, Divide 4 4, Sleep 1, PinOff, Divide 4 4, Sleep 1,
                     PinOn, Divide 4 4, Sleep 1, PinOff, Divide 4 4, Sleep 1]) = PinOff"
proof -
  have division: "truediv 4 (2 * 2) = Inr 1"
    by code_simp
  have run: "flash 4 2 \<lparr>pin = True, trace = [PinOn], sleep_fault = sleeps_a_minute\<rparr> =
     (None, \<lparr>pin = False,
             trace = [PinOn,
                      PinOn, Divide 4 4, Sleep 1, PinOff, Divide 4 4, Sleep 1,
                      PinOn, Divide 4 4, Sleep 1, PinOff, Divide 4 4, Sleep 1],
             sleep_fault = sleeps_a_minute\<rparr>)"
    using flash_accepted [OF _ division,
        of "\<lparr>pin = True, trace = [PinOn], sleep_fault = sleeps_a_minute\<rparr>"]
    by (simp add: sleeps_a_minute_def numeral_2_eq_2)
  from flash_ends_low [OF _ run] run show ?thesis
    by simp
qed

end
